theory Spec2Isabelle
  imports Complex_Main "HOL-Library.Word" "HOL-Library.AList" "HOL-Library.Log_Nat"
begin

section \<open>Int8 quantization of linear layers (Int8Quantization.ipynb)\<close>

text \<open>
  The notebook defines three things: the class \<open>QuantizedLinearLayer\<close>, the function
  \<open>quantize_linear\<close> and the function \<open>quantize_model\<close>. They are embedded below.

  Numbers. The weights and biases of \<open>nn.Linear\<close> are float32 tensors and the source
  computes in float32. A finite value is a real number; an arithmetic operation takes the
  exact result and rounds it to the nearest binary32 value, a tie to the even one
  (\<open>round32\<close>), with overflow to an infinity and gradual underflow. A computed value
  is an \<open>fval\<close>: a finite real, an infinity or NaN, with the IEEE-754 rules for the
  non-finite ones. Signed zeros are not distinguished (zero counts as positive zero).
  A tensor element is a \<^typ>\<open>real\<close>; the tensors of the source hold binary32 values,
  the reals \<open>x\<close> with \<open>round32 x = Fin x\<close>.
\<close>

subsection \<open>Values, tensors, errors\<close>

datatype fval = Fin real | PInf | NInf | NaN

text \<open>The infinity with the sign of a non-zero real; NaN for zero.\<close>

definition inf_of_sign :: "real \<Rightarrow> fval" where
  "inf_of_sign a = (if a > 0 then PInf else if a < 0 then NInf else NaN)"

text \<open>\<open>torch.round\<close> rounds to the nearest integer, a tie to the even one.\<close>

definition round_half_even :: "real \<Rightarrow> int" where
  "round_half_even x =
     (let f = \<lfloor>x\<rfloor>; d = x - of_int f
      in if d < 1 / 2 then f
         else if d > 1 / 2 then f + 1
         else if even f then f else f + 1)"

text \<open>
  Rounding a real \<open>x\<close> to binary32. The finite binary32 values are the
  \<open>m * 2 ^ k / 2 ^ 149\<close> with \<open>\<bar>m\<bar> < 2 ^ 24\<close> and \<open>k \<le> 253\<close> (\<open>k = 0\<close> for the subnormal
  values). With \<open>y = x * 2 ^ 149\<close>, \<open>scaled_round\<close> takes for \<open>k\<close> the exponent of the binade
  of \<open>y\<close>, \<open>round_at\<close> takes for the significand \<open>m\<close> the quotient \<open>y / 2 ^ k\<close> rounded
  to an integer, and \<open>assemble32\<close> gives the value, an infinity when it is \<open>2 ^ 128\<close> or
  more.
\<close>

definition assemble32 :: "real \<Rightarrow> nat \<Rightarrow> int \<Rightarrow> fval" where
  "assemble32 x k m =
     (if k = 253 \<and> 2 ^ 24 \<le> \<bar>m\<bar> then inf_of_sign x else Fin (of_int m * 2 ^ k / 2 ^ 149))"

definition round_at :: "real \<Rightarrow> real \<Rightarrow> nat \<Rightarrow> fval" where
  "round_at x y k = assemble32 x k (round_half_even (y / 2 ^ k))"

definition scaled_round :: "real \<Rightarrow> real \<Rightarrow> fval" where
  "scaled_round x y = round_at x y (nat (min 253 (bitlen \<lfloor>\<bar>y\<bar>\<rfloor> - 24)))"

definition round32 :: "real \<Rightarrow> fval" where
  "round32 x = scaled_round x (x * 2 ^ 149)"

fun fneg :: "fval \<Rightarrow> fval" where
  "fneg (Fin a) = Fin (- a)"
| "fneg PInf = NInf"
| "fneg NInf = PInf"
| "fneg NaN = NaN"

fun fmul :: "fval \<Rightarrow> fval \<Rightarrow> fval" where
  "fmul (Fin a) (Fin b) = round32 (a * b)"
| "fmul (Fin a) PInf = inf_of_sign a"
| "fmul (Fin a) NInf = inf_of_sign (- a)"
| "fmul PInf (Fin b) = inf_of_sign b"
| "fmul NInf (Fin b) = inf_of_sign (- b)"
| "fmul PInf PInf = PInf"
| "fmul PInf NInf = NInf"
| "fmul NInf PInf = NInf"
| "fmul NInf NInf = PInf"
| "fmul NaN _ = NaN"
| "fmul _ NaN = NaN"

fun fadd :: "fval \<Rightarrow> fval \<Rightarrow> fval" where
  "fadd (Fin a) (Fin b) = round32 (a + b)"
| "fadd (Fin a) PInf = PInf"
| "fadd (Fin a) NInf = NInf"
| "fadd PInf (Fin b) = PInf"
| "fadd NInf (Fin b) = NInf"
| "fadd PInf PInf = PInf"
| "fadd NInf NInf = NInf"
| "fadd PInf NInf = NaN"
| "fadd NInf PInf = NaN"
| "fadd NaN _ = NaN"
| "fadd _ NaN = NaN"

definition fsub :: "fval \<Rightarrow> fval \<Rightarrow> fval" where
  "fsub a b = fadd a (fneg b)"

text \<open>Division: a non-zero finite value over zero is an infinity, zero over zero is NaN,
  a finite value over an infinity is zero.\<close>

fun fdiv :: "fval \<Rightarrow> fval \<Rightarrow> fval" where
  "fdiv (Fin a) (Fin b) = (if b = 0 then inf_of_sign a else round32 (a / b))"
| "fdiv (Fin a) PInf = Fin 0"
| "fdiv (Fin a) NInf = Fin 0"
| "fdiv PInf (Fin b) = (if b \<ge> 0 then PInf else NInf)"
| "fdiv NInf (Fin b) = (if b \<ge> 0 then NInf else PInf)"
| "fdiv PInf PInf = NaN"
| "fdiv PInf NInf = NaN"
| "fdiv NInf PInf = NaN"
| "fdiv NInf NInf = NaN"
| "fdiv NaN _ = NaN"
| "fdiv _ NaN = NaN"

text \<open>\<open>Tensor.reciprocal()\<close>.\<close>

definition frecip :: "fval \<Rightarrow> fval" where
  "frecip a = fdiv (Fin 1) a"

text \<open>\<open>Tensor.round()\<close>: the result is an integer, so it is a binary32 value when the
  argument is one.\<close>

fun fround :: "fval \<Rightarrow> fval" where
  "fround (Fin a) = Fin (of_int (round_half_even a))"
| "fround PInf = PInf"
| "fround NInf = NInf"
| "fround NaN = NaN"

text \<open>\<open>Tensor.clamp(lo, hi)\<close>: NaN stays NaN.\<close>

fun fclamp :: "fval \<Rightarrow> real \<Rightarrow> real \<Rightarrow> fval" where
  "fclamp (Fin a) lo hi = Fin (min (max a lo) hi)"
| "fclamp PInf lo hi = Fin hi"
| "fclamp NInf lo hi = Fin lo"
| "fclamp NaN lo hi = NaN"

text \<open>
  \<open>.to(torch.uint8)\<close>: a finite value is truncated towards zero and keeps its low 8
  bits, so a value outside 0..255 wraps around. The result of converting a non-finite
  value is not fixed by the source; it is the parameter \<open>nc\<close> of the model.
\<close>

definition trunc_toward_zero :: "real \<Rightarrow> int" where
  "trunc_toward_zero x = (if x \<ge> 0 then \<lfloor>x\<rfloor> else \<lceil>x\<rceil>)"

fun to_uint8 :: "8 word \<Rightarrow> fval \<Rightarrow> 8 word" where
  "to_uint8 nc (Fin a) = word_of_int (trunc_toward_zero a)"
| "to_uint8 nc PInf = nc"
| "to_uint8 nc NInf = nc"
| "to_uint8 nc NaN = nc"

text \<open>\<open>uint8_tensor.float()\<close>, and the promotion of a uint8 operand in float arithmetic.\<close>

definition to_float :: "8 word \<Rightarrow> fval" where
  "to_float q = Fin (of_int (uint q))"

text \<open>A float tensor is the list of its elements in row-major order; its shape is
  carried by the layer that owns it. A quantized tensor is a list of bytes.\<close>

type_synonym tensor = "real list"
type_synonym qtensor = "8 word list"

text \<open>The two ways \<open>quantize_linear\<close> raises: \<open>Tensor.min()\<close> and \<open>Tensor.max()\<close> raise
  RuntimeError on a tensor with no element, and \<open>None.min()\<close> raises AttributeError.\<close>

datatype error = RuntimeError | AttributeError

definition tensor_min :: "tensor \<Rightarrow> error + real" where
  "tensor_min t = (case t of [] \<Rightarrow> Inl RuntimeError | x # xs \<Rightarrow> Inr (fold min xs x))"

definition tensor_max :: "tensor \<Rightarrow> error + real" where
  "tensor_max t = (case t of [] \<Rightarrow> Inl RuntimeError | x # xs \<Rightarrow> Inr (fold max xs x))"

subsection \<open>The layers\<close>

text \<open>\<open>nn.Linear\<close>: \<open>bias\<close> is \<open>None\<close> for a layer built with \<open>bias=False\<close>.\<close>

record linear =
  in_features :: nat
  out_features :: nat
  weight :: tensor
  bias :: "tensor option"

text \<open>\<open>QuantizedLinearLayer\<close>; its buffers \<open>weight\<close> and \<open>bias\<close> are named \<open>qweight\<close> and
  \<open>qbias\<close> here, apart from those of \<open>nn.Linear\<close>.\<close>

record quantized_linear_layer =
  input_dim :: nat
  output_dim :: nat
  qweight :: qtensor
  weight_scale :: fval
  weight_zero_point :: "8 word"
  qbias :: qtensor
  bias_scale :: fval
  bias_zero_point :: "8 word"

subsection \<open>quantize_linear\<close>

text \<open>
  The source runs the same block twice, on the weight and then on the bias. The block is
  \<open>quantize_tensor\<close>, in three parts: \<open>calibrate\<close> (min and max, the interval extended
  to include zero), \<open>solve_params\<close> (scale and zero point) and \<open>quantize_values\<close>
  (the element-wise map).
\<close>

definition calibrate :: "tensor \<Rightarrow> error + real \<times> real" where
  "calibrate t =
     (case tensor_min t of Inl e \<Rightarrow> Inl e | Inr min_val \<Rightarrow>
      (case tensor_max t of Inl e \<Rightarrow> Inl e | Inr max_val \<Rightarrow>
        (let min_val = (if min_val > 0 then 0 else min_val);
             max_val = (if max_val < 0 then 0 else max_val)
         in Inr (min_val, max_val))))"

text \<open>
  The scale is written \<open>255 / (max_val - min_val)\<close>. With a tensor on the right of \<open>/\<close>
  Python calls \<open>Tensor.__rtruediv__\<close>, which PyTorch defines as
  \<open>self.reciprocal() * other\<close>: the difference, its reciprocal and the product with 255
  are each rounded.
\<close>

definition solve_params :: "8 word \<Rightarrow> real \<Rightarrow> real \<Rightarrow> fval \<times> 8 word" where
  "solve_params nc min_val max_val =
     (let scale = fmul (frecip (fsub (Fin max_val) (Fin min_val))) (Fin 255);
          zero_point = to_uint8 nc (fclamp (fround (fmul (fneg (Fin min_val)) scale)) 0 255)
      in (scale, zero_point))"

text \<open>\<open>weight * weight_scale + weight_zero_point\<close>, for one element: the product is
  rounded, then the sum.\<close>

definition affine_value :: "real \<Rightarrow> fval \<Rightarrow> 8 word \<Rightarrow> fval" where
  "affine_value v scale zero_point = fadd (fmul (Fin v) scale) (to_float zero_point)"

definition quantize_value :: "8 word \<Rightarrow> real \<Rightarrow> fval \<Rightarrow> 8 word \<Rightarrow> 8 word" where
  "quantize_value nc v scale zero_point =
     to_uint8 nc (fclamp (fround (affine_value v scale zero_point)) 0 255)"

definition quantize_values :: "8 word \<Rightarrow> tensor \<Rightarrow> fval \<Rightarrow> 8 word \<Rightarrow> qtensor" where
  "quantize_values nc t scale zero_point =
     map (\<lambda>v. quantize_value nc v scale zero_point) t"

definition quantize_tensor :: "8 word \<Rightarrow> tensor \<Rightarrow> error + qtensor \<times> fval \<times> 8 word" where
  "quantize_tensor nc t =
     (case calibrate t of Inl e \<Rightarrow> Inl e | Inr (min_val, max_val) \<Rightarrow>
        (let (scale, zero_point) = solve_params nc min_val max_val
         in Inr (quantize_values nc t scale zero_point, scale, zero_point)))"

definition quantize_linear ::
  "8 word \<Rightarrow> linear \<Rightarrow> error + qtensor \<times> fval \<times> 8 word \<times> qtensor \<times> fval \<times> 8 word" where
  "quantize_linear nc linear_layer =
     (case quantize_tensor nc (weight linear_layer) of Inl e \<Rightarrow> Inl e
      | Inr (wq, ws, wz) \<Rightarrow>
        (case bias linear_layer of None \<Rightarrow> Inl AttributeError
         | Some b \<Rightarrow>
           (case quantize_tensor nc b of Inl e \<Rightarrow> Inl e
            | Inr (bq, bs, bz) \<Rightarrow> Inr (wq, ws, wz, bq, bs, bz))))"

subsection \<open>QuantizedLinearLayer.forward: the dequantization\<close>

text \<open>The first two statements of \<open>forward\<close> rebuild float parameters from the stored
  bytes; the matrix product that follows them is not modelled.\<close>

definition dequantize_value :: "8 word \<Rightarrow> 8 word \<Rightarrow> fval \<Rightarrow> fval" where
  "dequantize_value q zero_point scale = fdiv (fsub (to_float q) (to_float zero_point)) scale"

definition dequantize :: "qtensor \<Rightarrow> 8 word \<Rightarrow> fval \<Rightarrow> fval list" where
  "dequantize qs zero_point scale = map (\<lambda>q. dequantize_value q zero_point scale) qs"

definition forward_params :: "quantized_linear_layer \<Rightarrow> fval list \<times> fval list" where
  "forward_params self =
     (dequantize (qweight self) (weight_zero_point self) (weight_scale self),
      dequantize (qbias self) (bias_zero_point self) (bias_scale self))"

subsection \<open>The model tree\<close>

text \<open>
  A model is an \<open>nn.Module\<close>: an \<open>nn.Linear\<close>, a \<open>QuantizedLinearLayer\<close>, or any other
  module, given by its class name and its named children in registration order
  (\<open>Sequential\<close> with its layers, \<open>ReLU\<close> with none). The two layer classes have no
  children. PyTorch keeps the children of a module in a dict, so the names of the children
  of one module are distinct; the datatype does not enforce it, and the theorems that
  depend on it assume it.
\<close>

datatype module =
    Linear linear
  | QuantizedLinearLayer quantized_linear_layer
  | Module string "(string \<times> module) list"

fun named_children :: "module \<Rightarrow> (string \<times> module) list" where
  "named_children (Module cls children) = children"
| "named_children (Linear l) = []"
| "named_children (QuantizedLinearLayer q) = []"

text \<open>\<open>setattr(model, name, layer)\<close> with a module as value stores it as the child of that
  name: in the place of the child that has the name, at the end when there is none.
  The source calls it with the name of a child only, so on a module with children.\<close>

fun setattr :: "module \<Rightarrow> string \<Rightarrow> module \<Rightarrow> module" where
  "setattr (Module cls children) name layer = Module cls (AList.update name layer children)"
| "setattr (Linear l) name layer = Linear l"
| "setattr (QuantizedLinearLayer q) name layer = QuantizedLinearLayer q"

text \<open>\<open>copy.deepcopy\<close>: the copy has the value of the original and shares nothing with
  it. Values have no identity here; which object a call mutates is tracked by what the
  call returns (see \<open>quantize_model\<close>).\<close>

definition deepcopy :: "module \<Rightarrow> module" where
  "deepcopy model = model"

subsection \<open>quantize_model\<close>

text \<open>
  \<open>quantize_model nc model exclude_layers copy_model\<close> is \<open>Inl\<close> the error raised, or
  \<open>Inr (returned, argument)\<close>: the model the call returns, and the state in which the
  call leaves the object it was given. With \<open>copy_model\<close> the call works on a copy and
  the object it was given stays as it was; without, the object is changed in place and is
  what the call returns.

  \<open>quantize_children\<close> is the \<open>for\<close> loop over \<open>model.named_children()\<close>: the children
  still to visit, and the current state of \<open>model\<close>. The recursive call is written
  \<open>quantize_model(layer, exclude_layers)\<close> in the source: \<open>copy_model\<close> takes its default,
  \<open>True\<close>, and the returned model is dropped. The child \<open>layer\<close> belongs to \<open>model\<close>, so
  after the call \<open>model\<close> holds that child in the state the call left it in.
\<close>

function quantize_model :: "8 word \<Rightarrow> module \<Rightarrow> string list \<Rightarrow> bool \<Rightarrow> error + module \<times> module"
  and quantize_children ::
    "8 word \<Rightarrow> (string \<times> module) list \<Rightarrow> string list \<Rightarrow> module \<Rightarrow> error + module"
where
  "quantize_model nc model exclude_layers copy_model =
     (let model' = (if copy_model then deepcopy model else model)
      in case quantize_children nc (named_children model') exclude_layers model' of
           Inl e \<Rightarrow> Inl e
         | Inr model'' \<Rightarrow> Inr (model'', if copy_model then model else model''))"
| "quantize_children nc [] exclude_layers model = Inr model"
| "quantize_children nc ((name, layer) # rest) exclude_layers model =
     (if name \<in> set exclude_layers then quantize_children nc rest exclude_layers model
      else case layer of
        Linear l \<Rightarrow>
          (case quantize_linear nc l of
             Inl e \<Rightarrow> Inl e
           | Inr (wq, ws, wz, bq, bs, bz) \<Rightarrow>
               quantize_children nc rest exclude_layers
                 (setattr model name
                    (QuantizedLinearLayer
                       \<lparr>input_dim = in_features l, output_dim = out_features l,
                        qweight = wq, weight_scale = ws, weight_zero_point = wz,
                        qbias = bq, bias_scale = bs, bias_zero_point = bz\<rparr>)))
      | _ \<Rightarrow>
          (case quantize_model nc layer exclude_layers True of
             Inl e \<Rightarrow> Inl e
           | Inr (returned, layer') \<Rightarrow>
               quantize_children nc rest exclude_layers (setattr model name layer')))"
  by pat_completeness auto

termination
proof (relation "measure (\<lambda>x. case x of
          Inl (nc, m, ex, c) \<Rightarrow> Suc (size_list (\<lambda>p. Suc (size (snd p))) (named_children m))
        | Inr (nc, cs, ex, m) \<Rightarrow> size_list (\<lambda>p. Suc (size (snd p))) cs)", goal_cases)
  case (7 nc name layer rest exclude_layers model cls children)
  have "size_list (\<lambda>p. Suc (size (snd p))) cs \<le> size_list (size_prod (\<lambda>x. 0) size) cs"
    for cs :: "(string \<times> module) list"
    by (induction cs) auto
  from this [of children] 7 show ?case by simp
qed (auto simp: deepcopy_def)

declare quantize_model.simps [simp del]

text \<open>What the loop makes of one direct child when it does not raise: an excluded child
  and a child that is not an \<open>nn.Linear\<close> stay, an \<open>nn.Linear\<close> becomes the
  \<open>QuantizedLinearLayer\<close> built from the result of \<open>quantize_linear\<close>.\<close>

definition direct_child :: "8 word \<Rightarrow> string list \<Rightarrow> string \<times> module \<Rightarrow> string \<times> module" where
  "direct_child nc ex p =
     (case p of (name, layer) \<Rightarrow>
        if name \<in> set ex then (name, layer)
        else case layer of
          Linear l \<Rightarrow>
            (case quantize_linear nc l of
               Inl e \<Rightarrow> (name, layer)
             | Inr (wq, ws, wz, bq, bs, bz) \<Rightarrow>
                 (name, QuantizedLinearLayer
                    \<lparr>input_dim = in_features l, output_dim = out_features l,
                     qweight = wq, weight_scale = ws, weight_zero_point = wz,
                     qbias = bq, bias_scale = bs, bias_zero_point = bz\<rparr>))
        | _ \<Rightarrow> (name, layer))"

text \<open>The child names that a call compares with \<open>exclude_layers\<close> when it runs to its
  end, in order: the name of every direct child, and below a child that is not excluded
  the names that the recursive call compares.\<close>

fun traversed :: "string list \<Rightarrow> module \<Rightarrow> string list" where
  "traversed ex (Module cls children) =
     concat (map (\<lambda>p. fst p # (if fst p \<in> set ex then [] else traversed ex (snd p))) children)"
| "traversed ex (Linear l) = []"
| "traversed ex (QuantizedLinearLayer q) = []"

subsection \<open>Example models\<close>

definition example_layer :: linear where
  "example_layer = \<lparr>in_features = 2, out_features = 1, weight = [1, - 1], bias = Some [1 / 2]\<rparr>"

definition no_bias_layer :: linear where
  "no_bias_layer = \<lparr>in_features = 2, out_features = 1, weight = [1, - 1], bias = None\<rparr>"

definition example_quantized :: quantized_linear_layer where
  "example_quantized =
     \<lparr>input_dim = 2, output_dim = 1, qweight = [255, 0], weight_scale = Fin (255 / 2),
      weight_zero_point = 128, qbias = [255], bias_scale = Fin 510, bias_zero_point = 0\<rparr>"

definition nested_model :: module where
  "nested_model =
     Module ''Sequential''
       [(''0'', Linear example_layer),
        (''1'', Module ''Sequential'' [(''0'', Linear example_layer)])]"

definition flat_model :: module where
  "flat_model =
     Module ''Sequential''
       [(''0'', Linear example_layer), (''1'', Module ''ReLU'' []), (''2'', Linear example_layer)]"

section \<open>Calibration\<close>

lemma fold_min_eq: "fold min xs (x::real) = Min (set (x # xs))"
proof (induction xs arbitrary: x)
  case Nil
  show ?case by simp
next
  case (Cons y ys)
  have "fold min (y # ys) x = Min (set (min y x # ys))"
    using Cons.IH [of "min y x"] by simp
  also have "\<dots> = Min (set (x # y # ys))"
    by (cases ys) (simp_all add: min.commute min.left_commute min.assoc)
  finally show ?case .
qed

lemma fold_max_eq: "fold max xs (x::real) = Max (set (x # xs))"
proof (induction xs arbitrary: x)
  case Nil
  show ?case by simp
next
  case (Cons y ys)
  have "fold max (y # ys) x = Max (set (max y x # ys))"
    using Cons.IH [of "max y x"] by simp
  also have "\<dots> = Max (set (x # y # ys))"
    by (cases ys) (simp_all add: max.commute max.left_commute max.assoc)
  finally show ?case .
qed

lemma tensor_min_eq: "t \<noteq> [] \<Longrightarrow> tensor_min t = Inr (Min (set t))"
  by (cases t) (simp_all add: tensor_min_def fold_min_eq del: set_simps)

lemma tensor_max_eq: "t \<noteq> [] \<Longrightarrow> tensor_max t = Inr (Max (set t))"
  by (cases t) (simp_all add: tensor_max_def fold_max_eq del: set_simps)

lemma calibrate_eq:
  "t \<noteq> [] \<Longrightarrow> calibrate t = Inr (min 0 (Min (set t)), max 0 (Max (set t)))"
proof -
  have a: "(if 0 < m then 0 else m) = min 0 m" for m :: real
    by simp
  have b: "(if m < 0 then 0 else m) = max 0 m" for m :: real
    by simp
  assume ne: "t \<noteq> []"
  show ?thesis
    unfolding calibrate_def tensor_min_eq [OF ne] tensor_max_eq [OF ne]
    by (simp only: sum.case Let_def a b)
qed

lemma calibrate_empty: "calibrate [] = Inl RuntimeError"
  by (simp add: calibrate_def tensor_min_def)

text \<open>
  C5. For every tensor with at least one element, calibration returns the pair
  \<open>(min 0 (least element), max 0 (greatest element))\<close>, so the calibrated range satisfies
  \<open>min_val \<le> 0 \<le> max_val\<close>.
\<close>

theorem C5_calibrate_zero_inclusive:
  assumes "t \<noteq> []"
  shows "\<exists>min_val max_val. calibrate t = Inr (min_val, max_val)
           \<and> min_val = min 0 (Min (set t)) \<and> max_val = max 0 (Max (set t))
           \<and> min_val \<le> 0 \<and> 0 \<le> max_val"
  using assms by (simp add: calibrate_eq)

theorem C5_witness:
  "[3, 1, 2 :: real] \<noteq> [] \<and> calibrate [3, 1, 2] = Inr (0, 3)"
  using C5_calibrate_zero_inclusive [of "[3, 1, 2]"] by simp

section \<open>Rounding, clamping and the conversion to bytes\<close>

lemma round_half_even_lower: "of_int (round_half_even x) - 1 / 2 \<le> x"
  unfolding round_half_even_def Let_def by (auto simp: not_less) linarith+

lemma round_half_even_upper: "x \<le> of_int (round_half_even x) + 1 / 2"
  unfolding round_half_even_def Let_def by (auto simp: not_less) linarith+

lemma round_half_even_of_int: "round_half_even (of_int k) = k"
  by (simp add: round_half_even_def)

lemma round_half_even_mono:
  assumes "x \<le> y"
  shows "round_half_even x \<le> round_half_even y"
proof (rule ccontr)
  assume "\<not> round_half_even x \<le> round_half_even y"
  then have "round_half_even y + 1 \<le> round_half_even x" by simp
  then have "(of_int (round_half_even y) :: real) + 1 \<le> of_int (round_half_even x)"
    by linarith
  with round_half_even_lower [of x] round_half_even_upper [of y] assms
  have "x = y" by linarith
  with \<open>\<not> round_half_even x \<le> round_half_even y\<close> show False by simp
qed

lemma round_half_even_clamp:
  "round_half_even (min (max x 0) 255) = min (max (round_half_even x) 0) 255"
proof -
  have z: "round_half_even 0 = 0" and h: "round_half_even 255 = 255"
    using round_half_even_of_int [of 0] round_half_even_of_int [of 255] by simp_all
  consider "x < 0" | "0 \<le> x" "x \<le> 255" | "255 < x" by linarith
  then show ?thesis
  proof cases
    case 1
    then have "round_half_even x \<le> 0" using round_half_even_mono [of x 0] z by simp
    with 1 show ?thesis by (simp add: z max_def min_def)
  next
    case 2
    then have "0 \<le> round_half_even x" "round_half_even x \<le> 255"
      using round_half_even_mono [of 0 x] round_half_even_mono [of x 255] z h by simp_all
    with 2 show ?thesis by (simp add: max_def min_def)
  next
    case 3
    then have "255 \<le> round_half_even x" using round_half_even_mono [of 255 x] h by simp
    with 3 show ?thesis by (simp add: h max_def min_def)
  qed
qed

lemma trunc_of_int: "trunc_toward_zero (of_int k) = k"
  by (simp add: trunc_toward_zero_def)

lemma clamp_of_int:
  "min (max (of_int k :: real) 0) 255 = of_int (min (max k 0) 255)"
  by (simp add: min_def max_def)

lemma to_uint8_clamp_round:
  "to_uint8 nc (fclamp (fround (Fin x)) 0 255) = word_of_int (min (max (round_half_even x) 0) 255)"
  by (simp only: fround.simps fclamp.simps to_uint8.simps clamp_of_int trunc_of_int)

lemma uint_clamp:
  "uint (word_of_int (min (max k 0) 255) :: 8 word) = min (max k 0) 255"
  by (simp add: uint_word_of_int min_def max_def)

section \<open>Rounding to binary32\<close>

lemma round_half_even_abs_le:
  assumes "\<bar>x\<bar> \<le> of_int n"
  shows "\<bar>round_half_even x\<bar> \<le> n"
proof -
  from assms have "- of_int n \<le> x" "x \<le> of_int n" by linarith+
  then have "round_half_even (of_int (- n)) \<le> round_half_even x"
    and "round_half_even x \<le> round_half_even (of_int n)"
    by (auto intro!: round_half_even_mono)
  then have "- n \<le> round_half_even x" and "round_half_even x \<le> n"
    by (simp_all only: round_half_even_of_int)
  then show ?thesis by linarith
qed

text \<open>The exponent that \<open>round32\<close> chooses, by what it satisfies.\<close>

lemma exponent_bounds:
  fixes y :: real
  defines "k \<equiv> nat (min 253 (bitlen \<lfloor>\<bar>y\<bar>\<rfloor> - 24))"
  shows "k \<le> 253" and "k = 0 \<or> 2 ^ (k + 23) \<le> \<bar>y\<bar>" and "\<bar>y\<bar> < 2 ^ (k + 24) \<or> k = 253"
proof -
  let ?n = "\<lfloor>\<bar>y\<bar>\<rfloor>"
  have n0: "0 \<le> ?n" by simp
  show "k \<le> 253" by (simp add: k_def)
  show "k = 0 \<or> 2 ^ (k + 23) \<le> \<bar>y\<bar>"
  proof (cases "k = 0")
    case False
    then have kb: "int k \<le> bitlen ?n - 24" and "0 < bitlen ?n - 24" by (auto simp: k_def)
    then have pos: "0 < ?n" using bitlen_eq_zero_iff [of ?n] n0 by linarith
    from kb have "k + 23 \<le> nat (bitlen ?n - 1)" by linarith
    then have "(2::int) ^ (k + 23) \<le> 2 ^ nat (bitlen ?n - 1)"
      by (intro power_increasing) simp_all
    also have "\<dots> \<le> ?n" using bitlen_bounds [OF pos] by simp
    finally have "(2::int) ^ (k + 23) \<le> ?n" .
    then have "(of_int ((2::int) ^ (k + 23)) :: real) \<le> of_int ?n" by (simp only: of_int_le_iff)
    also have "\<dots> \<le> \<bar>y\<bar>" by simp
    finally show ?thesis by simp
  qed simp
  show "\<bar>y\<bar> < 2 ^ (k + 24) \<or> k = 253"
  proof (cases "k = 253")
    case False
    then have kb: "bitlen ?n - 24 \<le> int k" by (auto simp: k_def)
    have "?n < 2 ^ (k + 24)"
    proof (cases "0 < ?n")
      case True
      from kb have "nat (bitlen ?n) \<le> k + 24" by linarith
      then have "(2::int) ^ nat (bitlen ?n) \<le> 2 ^ (k + 24)"
        by (intro power_increasing) simp_all
      with bitlen_bounds [OF True] show ?thesis by linarith
    next
      case False
      with n0 have "?n = 0" by linarith
      then show ?thesis by (simp only:) simp
    qed
    then have "?n + 1 \<le> 2 ^ (k + 24)" by simp
    then have "(of_int (?n + 1) :: real) \<le> of_int (2 ^ (k + 24))" by (simp only: of_int_le_iff)
    then have "(of_int ?n :: real) + 1 \<le> 2 ^ (k + 24)" by simp
    moreover have "\<bar>y\<bar> < of_int ?n + 1" by linarith
    ultimately have "\<bar>y\<bar> < 2 ^ (k + 24)" by linarith
    then show ?thesis ..
  qed simp
qed

lemma round32_cases:
  obtains B k m where "B = (2::real) ^ 149" and "k \<le> 253"
    and "k = 0 \<or> 2 ^ (k + 23) \<le> \<bar>x * B\<bar>"
    and "\<bar>x * B\<bar> < 2 ^ (k + 24) \<or> k = 253"
    and "m = round_half_even (x * B / 2 ^ k)"
    and "round32 x = (if k = 253 \<and> 2 ^ 24 \<le> \<bar>m\<bar> then inf_of_sign x
                      else Fin (of_int m * 2 ^ k / B))"
proof -
  define B :: real where "B = 2 ^ 149"
  define k where "k = nat (min 253 (bitlen \<lfloor>\<bar>x * B\<bar>\<rfloor> - 24))"
  define m where "m = round_half_even (x * B / 2 ^ k)"
  have "round32 x = (if k = 253 \<and> 2 ^ 24 \<le> \<bar>m\<bar> then inf_of_sign x
                      else Fin (of_int m * 2 ^ k / B))"
    by (simp only: round32_def scaled_round_def round_at_def assemble32_def B_def k_def m_def)
  with exponent_bounds [of "x * B", folded k_def] B_def m_def show thesis
    by (intro that)
qed

lemma round32_not_NaN: "round32 x \<noteq> NaN"
proof (rule round32_cases [of x])
  fix B :: real and k m
  assume m: "m = round_half_even (x * B / 2 ^ k)"
    and r: "round32 x = (if k = 253 \<and> 2 ^ 24 \<le> \<bar>m\<bar> then inf_of_sign x
                      else Fin (of_int m * 2 ^ k / B))"
  show ?thesis
  proof (cases "x = 0")
    case True
    with m have "m = 0" using round_half_even_of_int [of 0] by simp
    with r show ?thesis by simp
  next
    case False
    with r show ?thesis by (simp add: inf_of_sign_def)
  qed
qed

lemma round32_error:
  assumes "round32 x = Fin r"
  shows "\<bar>r - x\<bar> \<le> \<bar>x\<bar> / 2 ^ 24 + 1 / 2 ^ 150"
proof (rule round32_cases [of x])
  fix B :: real and k m
  let ?y = "x * B"
  assume B: "B = 2 ^ 149" and k: "k = 0 \<or> 2 ^ (k + 23) \<le> \<bar>?y\<bar>"
    and m: "m = round_half_even (?y / 2 ^ k)"
    and r: "round32 x = (if k = 253 \<and> 2 ^ 24 \<le> \<bar>m\<bar> then inf_of_sign x
                      else Fin (of_int m * 2 ^ k / B))"
  have Bpos: "0 < B" by (simp add: B)
  from r assms have rv: "r = of_int m * 2 ^ k / B"
    by (auto simp: inf_of_sign_def split: if_splits)
  have "\<bar>of_int m - ?y / 2 ^ k\<bar> \<le> 1 / 2"
    using round_half_even_lower [of "?y / 2 ^ k"] round_half_even_upper [of "?y / 2 ^ k"]
    unfolding m by linarith
  then have "\<bar>of_int m - ?y / 2 ^ k\<bar> * 2 ^ k \<le> 1 / 2 * 2 ^ k"
    by (intro mult_right_mono) simp_all
  moreover have "\<bar>of_int m - ?y / 2 ^ k\<bar> * 2 ^ k = \<bar>of_int m * 2 ^ k - ?y\<bar>"
  proof -
    have "\<bar>of_int m - ?y / 2 ^ k\<bar> * 2 ^ k = \<bar>(of_int m - ?y / 2 ^ k) * 2 ^ k\<bar>"
      by (simp add: abs_mult)
    also have "(of_int m - ?y / 2 ^ k) * 2 ^ k = of_int m * 2 ^ k - ?y"
      by (simp add: field_simps)
    finally show ?thesis .
  qed
  ultimately have "\<bar>of_int m * 2 ^ k - ?y\<bar> \<le> 1 / 2 * 2 ^ k" by (simp only:)
  then have e: "\<bar>of_int m * 2 ^ k - ?y\<bar> \<le> 2 ^ k / 2" by simp
  have "\<bar>r - x\<bar> = \<bar>of_int m * 2 ^ k - ?y\<bar> / B"
  proof -
    have "r - x = (of_int m * 2 ^ k - ?y) / B" using Bpos by (simp add: rv field_simps)
    then show ?thesis using Bpos by (simp add: abs_divide)
  qed
  also have "\<dots> \<le> (2 ^ k / 2) / B"
    using e Bpos by (intro divide_right_mono) simp_all
  finally have b: "\<bar>r - x\<bar> \<le> (2 ^ k / 2) / B" .
  from k show ?thesis
  proof
    assume "k = 0"
    with b have "\<bar>r - x\<bar> \<le> 1 / 2 ^ 150" by (simp add: B)
    moreover have "0 \<le> \<bar>x\<bar> / 2 ^ 24" by simp
    ultimately show ?thesis by linarith
  next
    assume "2 ^ (k + 23) \<le> \<bar>?y\<bar>"
    then have "(2::real) ^ k * 2 ^ 23 \<le> \<bar>x\<bar> * B"
      using Bpos by (simp add: power_add abs_mult)
    then have "(2 ^ k / 2) / B \<le> \<bar>x\<bar> / 2 ^ 24" using Bpos by (simp add: field_simps)
    with b have "\<bar>r - x\<bar> \<le> \<bar>x\<bar> / 2 ^ 24" by linarith
    moreover have "(0::real) \<le> 1 / 2 ^ 150" by simp
    ultimately show ?thesis by linarith
  qed
qed

lemma round32_finite:
  assumes "\<bar>x\<bar> \<le> 2 ^ 127"
  shows "\<exists>r. round32 x = Fin r"
proof (rule round32_cases [of x])
  fix B :: real and k m
  let ?y = "x * B"
  assume B: "B = 2 ^ 149" and m: "m = round_half_even (?y / 2 ^ k)"
    and r: "round32 x = (if k = 253 \<and> 2 ^ 24 \<le> \<bar>m\<bar> then inf_of_sign x
                      else Fin (of_int m * 2 ^ k / B))"
  show ?thesis
  proof (cases "k = 253")
    case True
    have "\<bar>?y / 2 ^ 253\<bar> = \<bar>x\<bar> / 2 ^ 104" by (simp add: B abs_mult abs_divide)
    also have "\<dots> \<le> 2 ^ 127 / 2 ^ 104" using assms by (intro divide_right_mono) simp_all
    also have "\<dots> = of_int (2 ^ 23)" by simp
    finally have "\<bar>m\<bar> \<le> 2 ^ 23" unfolding m True by (rule round_half_even_abs_le)
    then have "\<not> 2 ^ 24 \<le> \<bar>m\<bar>" by simp
    with r show ?thesis by simp
  next
    case False
    with r show ?thesis by simp
  qed
qed

lemma round32_nonneg:
  assumes "0 \<le> x"
  shows "round32 x = PInf \<or> (\<exists>r. round32 x = Fin r \<and> 0 \<le> r)"
proof (rule round32_cases [of x])
  fix B :: real and k m
  let ?y = "x * B"
  assume B: "B = 2 ^ 149" and m: "m = round_half_even (?y / 2 ^ k)"
    and r: "round32 x = (if k = 253 \<and> 2 ^ 24 \<le> \<bar>m\<bar> then inf_of_sign x
                      else Fin (of_int m * 2 ^ k / B))"
  have Bpos: "0 < B" by (simp add: B)
  have "0 \<le> ?y / 2 ^ k" using assms Bpos by simp
  then have "round_half_even (of_int 0) \<le> m" unfolding m by (intro round_half_even_mono) simp
  then have m0: "0 \<le> m" by (simp only: round_half_even_of_int)
  show ?thesis
  proof (cases "k = 253 \<and> 2 ^ 24 \<le> \<bar>m\<bar>")
    case True
    have "x \<noteq> 0"
    proof
      assume "x = 0"
      with m have "m = 0" using round_half_even_of_int [of 0] by simp
      with True show False by simp
    qed
    with assms r True show ?thesis by (simp add: inf_of_sign_def)
  next
    case False
    have "0 \<le> of_int m * 2 ^ k / B" using m0 Bpos by simp
    moreover have "round32 x = Fin (of_int m * 2 ^ k / B)"
      unfolding r using False by (rule if_not_P)
    ultimately show ?thesis by simp
  qed
qed

lemma round32_of_int:
  assumes "\<bar>n\<bar> < 2 ^ 24"
  shows "round32 (of_int n) = Fin (of_int n)"
proof (rule round32_cases [of "of_int n"])
  fix B :: real and k m
  let ?y = "of_int n * B :: real"
  assume B: "B = 2 ^ 149" and k: "k = 0 \<or> 2 ^ (k + 23) \<le> \<bar>?y\<bar>"
    and m: "m = round_half_even (?y / 2 ^ k)"
    and r: "round32 (of_int n) = (if k = 253 \<and> 2 ^ 24 \<le> \<bar>m\<bar> then inf_of_sign (of_int n)
                      else Fin (of_int m * 2 ^ k / B))"
  have Bpos: "0 < B" by (simp add: B)
  have yb: "\<bar>?y\<bar> < 2 ^ 24 * B"
  proof -
    have "\<bar>of_int n :: real\<bar> < of_int (2 ^ 24)"
      using assms by (simp only: of_int_abs [symmetric] of_int_less_iff)
    then have "\<bar>of_int n :: real\<bar> * B < of_int (2 ^ 24) * B"
      using Bpos by (intro mult_strict_right_mono)
    then show ?thesis using Bpos by (simp add: abs_mult)
  qed
  have k149: "k \<le> 149"
  proof (rule ccontr)
    assume "\<not> k \<le> 149"
    then have "150 \<le> k" by simp
    with k have "2 ^ (k + 23) \<le> \<bar>?y\<bar>" by auto
    moreover have "(2::real) ^ (24 + 149) \<le> 2 ^ (k + 23)"
      using \<open>150 \<le> k\<close> by (intro power_increasing) simp_all
    moreover have "(2::real) ^ (24 + 149) = 2 ^ 24 * B" unfolding B by (rule power_add)
    ultimately show False using yb by linarith
  qed
  have split: "B = 2 ^ (149 - k) * 2 ^ k"
    using k149 by (simp add: B power_add [symmetric])
  have "?y / 2 ^ k = of_int n * 2 ^ (149 - k)"
    by (simp add: split)
  also have "\<dots> = of_int (n * 2 ^ (149 - k))" by simp
  finally have mv: "m = n * 2 ^ (149 - k)"
    unfolding m by (simp only: round_half_even_of_int)
  have "of_int m * 2 ^ k / B = (of_int n :: real)"
    by (simp add: mv split)
  with r k149 show ?thesis by simp
qed

lemma round32_zero: "round32 0 = Fin 0"
  using round32_of_int [of 0] by simp

lemma round32_bound:
  assumes "round32 x = Fin r"
  shows "\<bar>r\<bar> < 2 ^ 128"
proof (rule round32_cases [of x])
  fix B :: real and k m
  let ?y = "x * B"
  assume B: "B = 2 ^ 149" and k253: "k \<le> 253" and hi: "\<bar>?y\<bar> < 2 ^ (k + 24) \<or> k = 253"
    and m: "m = round_half_even (?y / 2 ^ k)"
    and r: "round32 x = (if k = 253 \<and> 2 ^ 24 \<le> \<bar>m\<bar> then inf_of_sign x
                      else Fin (of_int m * 2 ^ k / B))"
  have Bpos: "0 < B" by (simp add: B)
  from r assms have rv: "r = of_int m * 2 ^ k / B" and no: "\<not> (k = 253 \<and> 2 ^ 24 \<le> \<bar>m\<bar>)"
    by (auto simp: inf_of_sign_def split: if_splits)
  have mb: "\<bar>m\<bar> \<le> 2 ^ 24"
  proof (cases "k = 253")
    case True
    with no show ?thesis by simp
  next
    case False
    with hi have "\<bar>?y\<bar> < 2 ^ (k + 24)" by simp
    then have "\<bar>?y\<bar> / 2 ^ k < 2 ^ (k + 24) / 2 ^ k" by (intro divide_strict_right_mono) simp_all
    then have "\<bar>?y / 2 ^ k\<bar> \<le> of_int (2 ^ 24)" by (simp add: power_add abs_divide)
    then show ?thesis unfolding m by (rule round_half_even_abs_le)
  qed
  have strict: "\<bar>of_int m :: real\<bar> * 2 ^ k < 2 ^ 128 * B"
  proof (cases "k = 253")
    case True
    with no have "\<bar>m\<bar> < 2 ^ 24" by simp
    then have "\<bar>of_int m :: real\<bar> < of_int (2 ^ 24)"
      by (simp only: of_int_abs [symmetric] of_int_less_iff)
    then have "\<bar>of_int m :: real\<bar> * 2 ^ k < of_int (2 ^ 24) * 2 ^ k"
      by (intro mult_strict_right_mono) simp_all
    with True show ?thesis by (simp add: B)
  next
    case False
    with k253 have "k \<le> 252" by simp
    have "\<bar>of_int m :: real\<bar> \<le> of_int (2 ^ 24)"
      using mb by (simp only: of_int_abs [symmetric] of_int_le_iff)
    then have "\<bar>of_int m :: real\<bar> * 2 ^ k \<le> of_int (2 ^ 24) * 2 ^ k"
      by (intro mult_right_mono) simp_all
    also have "\<dots> = 2 ^ (24 + k)" by (simp add: power_add)
    also have "\<dots> \<le> 2 ^ 276" using \<open>k \<le> 252\<close> by (intro power_increasing) simp_all
    also have "\<dots> < (2::real) ^ 128 * B" by (simp add: B)
    finally show ?thesis .
  qed
  have "\<bar>r\<bar> = \<bar>of_int m :: real\<bar> * 2 ^ k / B" using Bpos by (simp add: rv abs_mult abs_divide)
  also have "\<dots> < 2 ^ 128 * B / B" using strict Bpos by (intro divide_strict_right_mono)
  also have "\<dots> = 2 ^ 128" using Bpos by simp
  finally show ?thesis .
qed


text \<open>Rules that evaluate \<open>round32\<close> at a numeral.\<close>

lemma bitlen_numeral_step: "bitlen (numeral n) = bitlen (numeral n div 2) + 1"
  by (subst compute_bitlen) simp

lemma bitlen_one: "bitlen 1 = 1"
  by (subst compute_bitlen) simp

lemmas round32_eval =
  round32_def scaled_round_def round_at_def assemble32_def round_half_even_def Let_def
  bitlen_numeral_step bitlen_one inf_of_sign_def

lemma uint8_le_255: "uint (q :: 8 word) \<le> 255"
  using uint_bounded [of q] by simp

lemma round32_uint8: "round32 (of_int (uint (q :: 8 word))) = Fin (of_int (uint q))"
  using uint8_le_255 [of q] by (intro round32_of_int) simp

lemma round32_uint8_diff:
  "round32 (of_int (uint (q :: 8 word)) - of_int (uint (z :: 8 word))) =
     Fin (of_int (uint q) - of_int (uint z))"
proof -
  have "\<bar>uint q - uint z\<bar> \<le> 255"
    using uint8_le_255 [of q] uint8_le_255 [of z] uint_ge_0 [of q] uint_ge_0 [of z]
    by linarith
  then have "\<bar>uint q - uint z\<bar> < 2 ^ 24" by simp
  from round32_of_int [OF this] show ?thesis by simp
qed

section \<open>Scale, zero point and quantized values\<close>

lemma solve_params_degenerate: "solve_params nc 0 0 = (PInf, nc)"
  by (simp add: solve_params_def fsub_def frecip_def round32_zero inf_of_sign_def)

lemma quantize_value_zero_pinf: "quantize_value nc 0 PInf z = nc"
  by (simp add: quantize_value_def affine_value_def inf_of_sign_def to_float_def)

lemma uint_to_uint8_clamp_round:
  "uint (to_uint8 nc (fclamp (fround x) 0 255)) =
     (case x of Fin r \<Rightarrow> min (max (round_half_even r) 0) 255
      | PInf \<Rightarrow> 255 | NInf \<Rightarrow> 0 | NaN \<Rightarrow> uint nc)"
proof (cases x)
  case (Fin r)
  then show ?thesis by (simp only: to_uint8_clamp_round uint_clamp fval.case)
next
  case PInf
  then show ?thesis by (simp add: trunc_toward_zero_def)
next
  case NInf
  then show ?thesis by (simp add: trunc_toward_zero_def)
next
  case NaN
  then show ?thesis by simp
qed

text \<open>
  C6. For every input tensor, whatever the magnitude of its elements, and every scale and
  zero point: the byte stored for an element is the rounded value clamped to 0..255,
  where the value is the float32 result of \<open>element * scale + zero_point\<close> (255 for
  positive infinity, 0 for negative infinity, the conversion of NaN for NaN). The clamp
  comes before the conversion to a byte, so the conversion never wraps around, and every
  element of the output lies in 0..255.
\<close>

theorem C6_quantized_in_range:
  "map uint (quantize_values nc t scale z) =
     map (\<lambda>v. case affine_value v scale z of
                 Fin r \<Rightarrow> min (max (round_half_even r) 0) 255
               | PInf \<Rightarrow> 255 | NInf \<Rightarrow> 0 | NaN \<Rightarrow> uint nc) t
   \<and> (\<forall>q \<in> set (quantize_values nc t scale z). 0 \<le> uint q \<and> uint q \<le> 255)"
  by (simp add: quantize_values_def quantize_value_def uint_to_uint8_clamp_round uint8_le_255)

theorem C6_witness:
  "map uint (quantize_values 0 [1000, - 1000, 1 / 4] (Fin 2) 100) = [255, 0, 100]"
proof -
  have r: "round32 2000 = Fin 2000" "round32 2100 = Fin 2100" "round32 (- 2000) = Fin (- 2000)"
    "round32 (- 1900) = Fin (- 1900)" "round32 (1 / 2) = Fin (1 / 2)"
    "round32 (201 / 2) = Fin (201 / 2)"
    by (simp_all add: round32_eval)
  have a: "affine_value 1000 (Fin 2) 100 = Fin 2100" "affine_value (- 1000) (Fin 2) 100 = Fin (- 1900)"
    "affine_value (1 / 4) (Fin 2) 100 = Fin (201 / 2)"
    by (simp_all add: affine_value_def to_float_def r)
  have "round_half_even 2100 = 2100" "round_half_even (- 1900) = - 1900"
    using round_half_even_of_int [of 2100] round_half_even_of_int [of "- 1900"] by simp_all
  moreover have "round_half_even (201 / 2) = 100"
    by (simp add: round_half_even_def Let_def)
  ultimately show ?thesis
    using C6_quantized_in_range [of 0 "[1000, - 1000, 1 / 4]" "Fin 2" 100] by (simp add: a)
qed

section \<open>Quantizing a tensor\<close>

lemma calibrate_range:
  assumes "calibrate t = Inr (min_val, max_val)"
  shows "t \<noteq> []" and "min_val = min 0 (Min (set t))" and "max_val = max 0 (Max (set t))"
proof -
  show ne: "t \<noteq> []" using assms by (auto simp: calibrate_empty)
  show "min_val = min 0 (Min (set t))" "max_val = max 0 (Max (set t))"
    using assms calibrate_eq [OF ne] by simp_all
qed

lemma calibrate_bounds:
  assumes "calibrate t = Inr (min_val, max_val)" and "v \<in> set t"
  shows "min_val \<le> v" and "v \<le> max_val" and "min_val \<le> 0" and "0 \<le> max_val"
proof -
  have "Min (set t) \<le> v" "v \<le> Max (set t)" using assms(2) by simp_all
  then show "min_val \<le> v" "v \<le> max_val" "min_val \<le> 0" "0 \<le> max_val"
    using calibrate_range(2,3) [OF assms(1)] by simp_all
qed

lemma quantize_tensor_Inr:
  assumes "quantize_tensor nc t = Inr (q, scale, zp)"
  obtains min_val max_val where "calibrate t = Inr (min_val, max_val)"
    and "solve_params nc min_val max_val = (scale, zp)"
    and "q = quantize_values nc t scale zp"
  using assms unfolding quantize_tensor_def
  by (auto split: sum.splits prod.splits)

section \<open>The example layer\<close>

lemma quantize_tensor_example:
  "quantize_tensor nc [1, - 1] = Inr ([255, 0], Fin (255 / 2), 128)"
proof -
  have r: "round32 2 = Fin 2" "round32 (1 / 2) = Fin (1 / 2)" "round32 (255 / 2) = Fin (255 / 2)"
    "round32 (511 / 2) = Fin (511 / 2)" "round32 (- (255 / 2)) = Fin (- (255 / 2))"
    by (simp_all add: round32_eval)
  have c: "calibrate [1, - 1] = Inr (- 1, 1)"
    by (simp add: calibrate_def tensor_min_def tensor_max_def)
  have h: "round_half_even (255 / 2) = 128" "round_half_even (511 / 2) = 256"
    "round_half_even (1 / 2) = 0"
    by (simp_all add: round_half_even_def Let_def)
  have p: "solve_params nc (- 1) 1 = (Fin (255 / 2), 128)"
    unfolding solve_params_def Let_def
    by (simp add: fsub_def frecip_def r to_uint8_clamp_round h del: fround.simps fclamp.simps to_uint8.simps)
  have a: "affine_value 1 (Fin (255 / 2)) 128 = Fin (511 / 2)"
    "affine_value (- 1) (Fin (255 / 2)) 128 = Fin (1 / 2)"
    by (simp_all add: affine_value_def to_float_def r)
  have q: "quantize_values nc [1, - 1] (Fin (255 / 2)) 128 = [255, 0]"
    by (simp add: quantize_values_def quantize_value_def a to_uint8_clamp_round h
        del: fround.simps fclamp.simps to_uint8.simps)
  show ?thesis by (simp add: quantize_tensor_def c p q)
qed

lemma quantize_tensor_example_bias:
  "quantize_tensor nc [1 / 2] = Inr ([255], Fin 510, 0)"
proof -
  have r: "round32 2 = Fin 2" "round32 (1 / 2) = Fin (1 / 2)" "round32 510 = Fin 510"
    "round32 255 = Fin 255"
    by (simp_all add: round32_eval)
  have c: "calibrate [1 / 2] = Inr (0, 1 / 2)"
    by (simp add: calibrate_def tensor_min_def tensor_max_def)
  have h: "round_half_even 0 = 0" "round_half_even 255 = 255"
    using round_half_even_of_int [of 0] round_half_even_of_int [of 255] by simp_all
  have p: "solve_params nc 0 (1 / 2) = (Fin 510, 0)"
    unfolding solve_params_def Let_def
    by (simp add: fsub_def frecip_def r round32_zero to_uint8_clamp_round h
        del: fround.simps fclamp.simps to_uint8.simps)
  have a: "affine_value (1 / 2) (Fin 510) 0 = Fin 255"
    by (simp add: affine_value_def to_float_def r)
  have q: "quantize_values nc [1 / 2] (Fin 510) 0 = [255]"
    by (simp add: quantize_values_def quantize_value_def a to_uint8_clamp_round h
        del: fround.simps fclamp.simps to_uint8.simps)
  show ?thesis by (simp add: quantize_tensor_def c p q)
qed

lemma quantize_linear_example:
  "quantize_linear nc example_layer = Inr ([255, 0], Fin (255 / 2), 128, [255], Fin 510, 0)"
  by (simp add: quantize_linear_def example_layer_def quantize_tensor_example
      quantize_tensor_example_bias)

lemma example_layer_dims: "in_features example_layer = 2" "out_features example_layer = 1"
  by (simp_all add: example_layer_def)

lemmas quantize_model_eval =
  quantize_model.simps deepcopy_def Let_def quantize_linear_example example_layer_dims
  example_quantized_def

section \<open>The degenerate range and the missing bias\<close>

lemma calibrate_all_zero:
  assumes "t \<noteq> []" and "\<forall>v \<in> set t. v = 0"
  shows "calibrate t = Inr (0, 0)"
proof -
  have "set t = {0}" using assms by (cases t) auto
  then show ?thesis using calibrate_eq [OF assms(1)] by simp
qed

lemma quantize_tensor_all_zero:
  assumes "t \<noteq> []" and "\<forall>v \<in> set t. v = 0"
  shows "quantize_tensor nc t = Inr (replicate (length t) nc, PInf, nc)"
proof -
  have "map (\<lambda>v. quantize_value nc v PInf nc) t = replicate (length t) nc"
    using assms(2) by (induction t) (simp_all add: quantize_value_zero_pinf)
  then show ?thesis
    by (simp add: quantize_tensor_def calibrate_all_zero [OF assms] solve_params_degenerate
        quantize_values_def)
qed

lemma quantize_tensor_one:
  "quantize_tensor nc [1] = Inr ([255], Fin 255, 0)"
proof -
  have r: "round32 1 = Fin 1" "round32 255 = Fin 255"
    by (simp_all add: round32_eval)
  have c: "calibrate [1] = Inr (0, 1)"
    by (simp add: calibrate_def tensor_min_def tensor_max_def)
  have h: "round_half_even 0 = 0" "round_half_even 255 = 255"
    using round_half_even_of_int [of 0] round_half_even_of_int [of 255] by simp_all
  have p: "solve_params nc 0 1 = (Fin 255, 0)"
    unfolding solve_params_def Let_def
    by (simp add: fsub_def frecip_def r round32_zero to_uint8_clamp_round h
        del: fround.simps fclamp.simps to_uint8.simps)
  have a: "affine_value 1 (Fin 255) 0 = Fin 255"
    by (simp add: affine_value_def to_float_def r)
  have q: "quantize_values nc [1] (Fin 255) 0 = [255]"
    by (simp add: quantize_values_def quantize_value_def a to_uint8_clamp_round h
        del: fround.simps fclamp.simps to_uint8.simps)
  show ?thesis by (simp add: quantize_tensor_def c p q)
qed

lemma quantize_linear_zero_weight:
  "quantize_linear nc \<lparr>in_features = 2, out_features = 1, weight = [0, 0], bias = Some [1]\<rparr>
     = Inr ([nc, nc], PInf, nc, [255], Fin 255, 0)"
proof -
  have "quantize_tensor nc [0, 0] = Inr (replicate (length [0, 0 :: real]) nc, PInf, nc)"
    by (rule quantize_tensor_all_zero) simp_all
  then show ?thesis by (simp add: quantize_linear_def quantize_tensor_one)
qed

text \<open>
  C2, as stated: on a tensor whose elements are all 0 the derived parameters are the
  fallback \<open>scale = 1.0\<close>, \<open>zero_point = 0\<close>, never an infinite scale. The source has no
  fallback; the scale of an all-zero weight is \<open>255 / 0\<close>, positive infinity.
\<close>

theorem C2_counterexample:
  "quantize_linear 0 \<lparr>in_features = 2, out_features = 1, weight = [0, 0], bias = Some [1]\<rparr>
     = Inr ([0, 0], PInf, 0, [255], Fin 255, 0)
   \<and> PInf \<noteq> Fin 1"
  using quantize_linear_zero_weight [of 0] by simp

text \<open>
  C2, amended. When every element of the weight is 0 the calibrated range is the single
  point 0 and no fallback is applied: the scale is \<open>255 / 0\<close>, positive infinity, the zero
  point is the byte that the conversion of NaN gives, and so is every quantized element.
\<close>

theorem C2_degenerate_range_scale_infinite:
  assumes "weight l \<noteq> []" and "\<forall>v \<in> set (weight l). v = 0"
    and "quantize_linear nc l = Inr (wq, ws, wz, bq, bs, bz)"
  shows "solve_params nc 0 0 = (PInf, nc) \<and> calibrate (weight l) = Inr (0, 0)
         \<and> ws = PInf \<and> wz = nc \<and> wq = replicate (length (weight l)) nc"
  using assms(3) quantize_tensor_all_zero [OF assms(1,2), of nc]
  by (auto simp: quantize_linear_def solve_params_degenerate calibrate_all_zero [OF assms(1,2)]
      split: option.splits sum.splits)

theorem C2_witness:
  "weight \<lparr>in_features = 2, out_features = 1, weight = [0, 0], bias = Some [1]\<rparr> \<noteq> []
   \<and> quantize_linear 3 \<lparr>in_features = 2, out_features = 1, weight = [0, 0], bias = Some [1]\<rparr>
        = Inr ([3, 3], PInf, 3, [255], Fin 255, 0)
   \<and> solve_params 3 0 0 = (PInf, 3)"
proof -
  have e: "quantize_linear 3 \<lparr>in_features = 2, out_features = 1, weight = [0, 0], bias = Some [1]\<rparr>
        = Inr ([3, 3], PInf, 3, [255], Fin 255, 0)"
    using quantize_linear_zero_weight [of 3] by simp
  have n: "weight \<lparr>in_features = 2, out_features = 1, weight = [0, 0], bias = Some [1]\<rparr> \<noteq> []"
    and z: "\<forall>v \<in> set (weight \<lparr>in_features = 2, out_features = 1, weight = [0, 0],
                 bias = Some [1]\<rparr>). v = 0"
    by simp_all
  from C2_degenerate_range_scale_infinite [OF n z e] n e show ?thesis by simp
qed

text \<open>
  C10. \<open>quantize_linear\<close> reads the bias and takes its minimum without a check: on a
  layer whose bias is \<open>None\<close> it raises (AttributeError, after the weight has been
  quantized; RuntimeError before that when the weight has no element) and returns
  nothing.
\<close>

theorem C10_missing_bias_raises:
  assumes "bias l = None"
  shows "quantize_linear nc l = Inl (if weight l = [] then RuntimeError else AttributeError)"
proof (cases "weight l = []")
  case True
  then show ?thesis by (simp add: quantize_linear_def quantize_tensor_def calibrate_empty)
next
  case False
  from calibrate_eq [OF False] show ?thesis
    using assms False
    by (simp add: quantize_linear_def quantize_tensor_def split: prod.splits)
qed

theorem C10_witness:
  "bias \<lparr>in_features = 2, out_features = 1, weight = [1, - 1], bias = None\<rparr> = None
   \<and> quantize_linear 0 \<lparr>in_features = 2, out_features = 1, weight = [1, - 1], bias = None\<rparr>
       = Inl AttributeError"
  using C10_missing_bias_raises [of "\<lparr>in_features = 2, out_features = 1, weight = [1, - 1], bias = None\<rparr>" 0]
  by simp

section \<open>The traversal of the model tree\<close>

lemma quantize_model_argument:
  "quantize_model nc model ex True = Inr (r, a) \<Longrightarrow> a = model"
  by (simp add: quantize_model.simps Let_def split: sum.splits)

lemma quantize_children_other:
  assumes "name \<notin> set ex" and "\<forall>l. layer \<noteq> Linear l"
  shows "quantize_children nc ((name, layer) # rest) ex model =
           (case quantize_model nc layer ex True of
              Inl e \<Rightarrow> Inl e
            | Inr b \<Rightarrow> quantize_children nc rest ex (setattr model name layer))"
proof (cases "quantize_model nc layer ex True")
  case (Inl e)
  with assms show ?thesis by (cases layer) simp_all
next
  case (Inr b)
  obtain ret a where b: "b = (ret, a)" by (cases b)
  from quantize_model_argument [OF Inr [unfolded b]] have "a = layer" .
  with assms Inr b show ?thesis by (cases layer) simp_all
qed

lemma quantize_children_other_Inr:
  assumes "name \<notin> set ex" and "\<forall>l. layer \<noteq> Linear l"
    and "quantize_children nc ((name, layer) # rest) ex model = Inr r"
  shows "quantize_children nc rest ex (setattr model name layer) = Inr r"
  using assms(3) unfolding quantize_children_other [OF assms(1,2)]
  by (simp split: sum.splits)

lemma update_middle:
  "name \<notin> fst ` set pre \<Longrightarrow>
   AList.update name v (pre @ (name, w) # post) = pre @ (name, v) # post"
  by (induction pre) auto

lemma quantize_children_result:
  assumes "distinct (map fst (pre @ rest))"
    and "quantize_children nc rest ex (Module cls (pre @ rest)) = Inr r"
  shows "r = Module cls (pre @ map (direct_child nc ex) rest)"
  using assms
proof (induction rest arbitrary: pre)
  case Nil
  then show ?case by simp
next
  case (Cons p rest)
  obtain name layer where p: "p = (name, layer)" by (cases p)
  have d: "distinct (map fst ((pre @ [p]) @ rest))" using Cons.prems(1) by simp
  have npre: "name \<notin> fst ` set pre" using Cons.prems(1) p by auto
  show ?case
  proof (cases "name \<in> set ex")
    case True
    with Cons.prems(2) p
    have "quantize_children nc rest ex (Module cls ((pre @ [p]) @ rest)) = Inr r" by simp
    from Cons.IH [OF d this] True p show ?thesis by (simp add: direct_child_def)
  next
    case False
    show ?thesis
    proof (cases layer)
      case (Linear l)
      from Cons.prems(2) p False Linear obtain wq ws wz bq bs bz where
        ql: "quantize_linear nc l = Inr (wq, ws, wz, bq, bs, bz)"
        by (auto split: sum.splits)
      define q where "q = QuantizedLinearLayer
                    \<lparr>input_dim = in_features l, output_dim = out_features l,
                     qweight = wq, weight_scale = ws, weight_zero_point = wz,
                     qbias = bq, bias_scale = bs, bias_zero_point = bz\<rparr>"
      have dc: "direct_child nc ex p = (name, q)"
        using False Linear ql by (simp add: direct_child_def p q_def)
      from Cons.prems(2) p False Linear ql
      have "quantize_children nc rest ex (Module cls ((pre @ [(name, q)]) @ rest)) = Inr r"
        by (simp add: update_middle [OF npre] q_def)
      moreover have "distinct (map fst ((pre @ [(name, q)]) @ rest))"
        using Cons.prems(1) p by simp
      ultimately have "r = Module cls ((pre @ [(name, q)]) @ map (direct_child nc ex) rest)"
        by (rule Cons.IH [rotated])
      then show ?thesis by (simp add: dc)
    next
      case (QuantizedLinearLayer x)
      then have nl: "\<forall>l. layer \<noteq> Linear l" by simp
      from Cons.prems(2)
      have "quantize_children nc rest ex
              (setattr (Module cls (pre @ (name, layer) # rest)) name layer) = Inr r"
        unfolding p by (rule quantize_children_other_Inr [OF False nl])
      then have "quantize_children nc rest ex (Module cls ((pre @ [p]) @ rest)) = Inr r"
        by (simp add: update_middle [OF npre] p)
      from Cons.IH [OF d this] False p QuantizedLinearLayer show ?thesis
        by (simp add: direct_child_def)
    next
      case (Module c cs)
      then have nl: "\<forall>l. layer \<noteq> Linear l" by simp
      from Cons.prems(2)
      have "quantize_children nc rest ex
              (setattr (Module cls (pre @ (name, layer) # rest)) name layer) = Inr r"
        unfolding p by (rule quantize_children_other_Inr [OF False nl])
      then have "quantize_children nc rest ex (Module cls ((pre @ [p]) @ rest)) = Inr r"
        by (simp add: update_middle [OF npre] p)
      from Cons.IH [OF d this] False p Module show ?thesis
        by (simp add: direct_child_def)
    qed
  qed
qed


lemma quantize_model_children:
  assumes "quantize_model nc model ex c = Inr (r, a)"
    and "distinct (map fst (named_children model))"
  shows "named_children r = map (direct_child nc ex) (named_children model)"
proof -
  from assms(1)
  have q: "quantize_children nc (named_children model) ex model = Inr r"
    by (cases c) (simp_all add: quantize_model.simps deepcopy_def Let_def split: sum.splits)
  show ?thesis
  proof (cases model)
    case (Module cls children)
    with q assms(2) quantize_children_result [of "[]" children nc ex cls r]
    show ?thesis by simp
  next
    case (Linear l)
    with q show ?thesis by auto
  next
    case (QuantizedLinearLayer x)
    with q show ?thesis by auto
  qed
qed

lemma update_commute:
  "k \<in> fst ` set al \<Longrightarrow> k \<noteq> k' \<Longrightarrow>
   AList.update k v (AList.update k' v' al) = AList.update k' v' (AList.update k v al)"
  by (induction al) auto

lemma update_keys_present:
  "k \<in> fst ` set al \<Longrightarrow> fst ` set (AList.update k v al) = fst ` set al"
  by (induction al) auto

lemma update_as_map:
  "distinct (map fst al) \<Longrightarrow> k \<in> fst ` set al \<Longrightarrow>
   AList.update k v al = map (\<lambda>p. if fst p = k then (k, v) else p) al"
proof (induction al)
  case Nil
  then show ?case by simp
next
  case (Cons p al)
  show ?case
  proof (cases "fst p = k")
    case True
    from Cons.prems(1) have "fst p \<notin> fst ` set al" by simp
    then have "\<forall>q \<in> set al. fst q \<noteq> k" unfolding True by blast
    then have "map (\<lambda>p. if fst p = k then (k, v) else p) al = al"
      by (induction al) auto
    with True show ?thesis by (cases p) simp
  next
    case False
    with Cons.prems have "distinct (map fst al)" and "k \<in> fst ` set al" by auto
    from Cons.IH [OF this] False show ?thesis by (cases p) simp
  qed
qed

lemma quantize_children_excluded_content:
  assumes "n \<in> set ex" and "fst ` set rest \<subseteq> fst ` set cs"
  shows "quantize_children nc (map (\<lambda>p. if fst p = n then (n, x) else p) rest) ex
           (Module cls (AList.update n x cs))
         = map_sum id (\<lambda>r. setattr r n x) (quantize_children nc rest ex (Module cls cs))"
  using assms(2)
proof (induction rest arbitrary: cs)
  case Nil
  show ?case by simp
next
  case (Cons p rest)
  obtain name layer where p: "p = (name, layer)" by (cases p)
  from Cons.prems p have key: "name \<in> fst ` set cs" and sub: "fst ` set rest \<subseteq> fst ` set cs"
    by auto
  show ?case
  proof (cases "name \<in> set ex")
    case True
    with Cons.IH [OF sub] assms(1) p show ?thesis by simp
  next
    case False
    with assms(1) have ne: "name \<noteq> n" by auto
    have sw: "AList.update name v (AList.update n x cs) = AList.update n x (AList.update name v cs)"
      for v by (rule update_commute [OF key ne])
    have sub': "fst ` set rest \<subseteq> fst ` set (AList.update name v cs)" for v
      using sub by (simp add: update_keys_present [OF key])
    show ?thesis
    proof (cases "\<exists>l. layer = Linear l")
      case True
      then obtain l where l: "layer = Linear l" ..
      show ?thesis
      proof (cases "quantize_linear nc l")
        case (Inl e)
        with p False ne l show ?thesis by simp
      next
        case (Inr b)
        obtain wq ws wz bq bs bz where b: "b = (wq, ws, wz, bq, bs, bz)"
          by (cases b) auto
        from Inr b p False ne l Cons.IH [OF sub'] show ?thesis by (simp add: sw)
      qed
    next
      case nl': False
      then have nl: "\<forall>l. layer \<noteq> Linear l" by simp
      show ?thesis
      proof (cases "quantize_model nc layer ex True")
        case (Inl e)
        with p ne show ?thesis
          by (simp only: list.map fst_conv if_False quantize_children_other [OF False nl] sum.case
              map_sum.simps id_apply)
      next
        case (Inr b)
        with p ne Cons.IH [OF sub'] show ?thesis
          by (simp only: list.map fst_conv if_False quantize_children_other [OF False nl] sum.case
              setattr.simps sw)
      qed
    qed
  qed
qed



lemma other_children_unchanged:
  assumes "quantize_model nc model ex c = Inr (r, a)"
    and "distinct (map fst (named_children model))"
    and "i < length (named_children model)"
    and "named_children model ! i = (name, layer)"
    and "\<forall>l. layer \<noteq> Linear l"
  shows "named_children r ! i = (name, layer)"
proof -
  have "direct_child nc ex (name, layer) = (name, layer)"
    using assms(5) by (cases layer) (simp_all add: direct_child_def)
  with quantize_model_children [OF assms(1,2)] assms(3,4) show ?thesis by simp
qed

lemma quantize_model_excluded_content:
  assumes "distinct (map fst (named_children model))"
    and "name \<in> fst ` set (named_children model)"
    and "name \<in> set ex"
  shows "quantize_model nc (setattr model name layer') ex c =
           map_sum id (\<lambda>(r, a). (setattr r name layer', setattr a name layer'))
             (quantize_model nc model ex c)"
proof (cases model)
  case (Module cls cs)
  let ?cs' = "map (\<lambda>p. if fst p = name then (name, layer') else p) cs"
  from assms(1,2) Module have u: "AList.update name layer' cs = ?cs'"
    by (simp add: update_as_map)
  have "quantize_children nc ?cs' ex (Module cls (AList.update name layer' cs)) =
          map_sum id (\<lambda>r. setattr r name layer') (quantize_children nc cs ex (Module cls cs))"
    by (rule quantize_children_excluded_content [OF assms(3) subset_refl])
  then have q: "quantize_children nc (AList.update name layer' cs) ex
                  (Module cls (AList.update name layer' cs)) =
          map_sum id (\<lambda>r. setattr r name layer') (quantize_children nc cs ex (Module cls cs))"
    by (simp only: u)
  show ?thesis
    unfolding Module
    by (cases "quantize_children nc cs ex (Module cls cs)"; cases c)
      (simp_all add: quantize_model.simps deepcopy_def q)
next
  case (Linear l)
  with assms(2) show ?thesis by simp
next
  case (QuantizedLinearLayer x)
  with assms(2) show ?thesis by simp
qed

text \<open>
  C1. A Linear layer below a chain of containers none of whose names is excluded should be
  replaced in the returned model. Evaluated on a model with one Linear layer as a direct
  child and one inside a nested \<open>Sequential\<close>, nothing excluded: the direct child is
  replaced, the nested layer is returned as it was, with \<open>copy_model\<close> and without. (In
  general no child of a child is ever changed: \<open>other_children_unchanged\<close>.)
\<close>

theorem C1_nested_linear_not_quantized:
  "quantize_model nc nested_model [] True =
     Inr (Module ''Sequential''
            [(''0'', QuantizedLinearLayer example_quantized),
             (''1'', Module ''Sequential'' [(''0'', Linear example_layer)])],
          nested_model)
   \<and> quantize_model nc nested_model [] False =
     Inr (Module ''Sequential''
            [(''0'', QuantizedLinearLayer example_quantized),
             (''1'', Module ''Sequential'' [(''0'', Linear example_layer)])],
          Module ''Sequential''
            [(''0'', QuantizedLinearLayer example_quantized),
             (''1'', Module ''Sequential'' [(''0'', Linear example_layer)])])"
  by (simp add: quantize_model_eval nested_model_def)

section \<open>Excluded children\<close>

text \<open>
  C8. For a model whose child names are distinct, and a direct child whose name is in the
  exclusion list: in the returned model the child is at the same place with the same
  value, and the call does not look into it: with any other module in its place the
  outcome is the same, that module carried through.
\<close>

theorem C8_excluded_children_unchanged:
  assumes "distinct (map fst (named_children model))"
    and "i < length (named_children model)"
    and "named_children model ! i = (name, layer)"
    and "name \<in> set exclude_layers"
  shows "(\<forall>r a. quantize_model nc model exclude_layers c = Inr (r, a) \<longrightarrow>
            length (named_children r) = length (named_children model)
            \<and> named_children r ! i = (name, layer))
       \<and> (\<forall>layer'. quantize_model nc (setattr model name layer') exclude_layers c =
            map_sum id (\<lambda>(r, a). (setattr r name layer', setattr a name layer'))
              (quantize_model nc model exclude_layers c))"
proof (intro conjI allI impI)
  fix r a
  assume q: "quantize_model nc model exclude_layers c = Inr (r, a)"
  have "direct_child nc exclude_layers (name, layer) = (name, layer)"
    using assms(4) by (simp add: direct_child_def)
  with quantize_model_children [OF q assms(1)] assms(2,3)
  show "length (named_children r) = length (named_children model)"
    and "named_children r ! i = (name, layer)"
    by simp_all
next
  fix layer'
  from assms(2,3) have "name \<in> fst ` set (named_children model)"
    by (metis fst_conv image_eqI nth_mem)
  from quantize_model_excluded_content [OF assms(1) this assms(4)]
  show "quantize_model nc (setattr model name layer') exclude_layers c =
            map_sum id (\<lambda>(r, a). (setattr r name layer', setattr a name layer'))
              (quantize_model nc model exclude_layers c)" .
qed

theorem C8_witness:
  "distinct (map fst (named_children flat_model))
   \<and> (2::nat) < length (named_children flat_model)
   \<and> named_children flat_model ! 2 = (''2'', Linear example_layer)
   \<and> quantize_model 0 flat_model [''2''] True =
       Inr (Module ''Sequential''
              [(''0'', QuantizedLinearLayer example_quantized), (''1'', Module ''ReLU'' []),
               (''2'', Linear example_layer)], flat_model)
   \<and> quantize_model 0 (setattr flat_model ''2'' (Linear no_bias_layer)) [''2''] True =
       Inr (Module ''Sequential''
              [(''0'', QuantizedLinearLayer example_quantized), (''1'', Module ''ReLU'' []),
               (''2'', Linear no_bias_layer)], setattr flat_model ''2'' (Linear no_bias_layer))"
proof -
  have d: "distinct (map fst (named_children flat_model))"
    and i: "(2::nat) < length (named_children flat_model)"
    and n: "named_children flat_model ! 2 = (''2'', Linear example_layer)"
    by (simp_all add: flat_model_def)
  have m: "''2'' \<in> set [''2'']" by simp
  have e: "quantize_model 0 flat_model [''2''] True =
       Inr (Module ''Sequential''
              [(''0'', QuantizedLinearLayer example_quantized), (''1'', Module ''ReLU'' []),
               (''2'', Linear example_layer)], flat_model)"
    by (simp add: quantize_model_eval flat_model_def)
  from C8_excluded_children_unchanged [OF d i n m, of 0 True]
  have "quantize_model 0 (setattr flat_model ''2'' (Linear no_bias_layer)) [''2''] True =
          map_sum id (\<lambda>(r, a). (setattr r ''2'' (Linear no_bias_layer),
                                 setattr a ''2'' (Linear no_bias_layer)))
            (quantize_model 0 flat_model [''2''] True)"
    by blast
  then have "quantize_model 0 (setattr flat_model ''2'' (Linear no_bias_layer)) [''2''] True =
       Inr (Module ''Sequential''
              [(''0'', QuantizedLinearLayer example_quantized), (''1'', Module ''ReLU'' []),
               (''2'', Linear no_bias_layer)], setattr flat_model ''2'' (Linear no_bias_layer))"
    unfolding e by (simp add: flat_model_def)
  with d i n e show ?thesis by blast
qed

section \<open>Exclusion entries that match nothing\<close>

lemma traversed_children:
  "traversed ex model =
     concat (map (\<lambda>p. fst p # (if fst p \<in> set ex then [] else traversed ex (snd p)))
       (named_children model))"
  by (cases model) simp_all

lemma exclusion_agree:
  "(\<forall>k \<in> set (traversed ex model). k \<in> set ex' \<longleftrightarrow> k \<in> set ex) \<Longrightarrow>
     quantize_model nc model ex' c = quantize_model nc model ex c"
  and "(\<forall>k \<in> set (concat (map (\<lambda>p. fst p # (if fst p \<in> set ex then []
          else traversed ex (snd p))) rest)). k \<in> set ex' \<longleftrightarrow> k \<in> set ex) \<Longrightarrow>
     quantize_children nc rest ex' cur = quantize_children nc rest ex cur"
proof (induction nc model ex c and nc rest ex cur rule: quantize_model_quantize_children.induct)
  case (1 nc model ex c)
  from "1.prems" have "\<forall>k \<in> set (concat (map (\<lambda>p. fst p # (if fst p \<in> set ex then []
          else traversed ex (snd p))) (named_children model))). k \<in> set ex' \<longleftrightarrow> k \<in> set ex"
    unfolding traversed_children [of ex model, symmetric] .
  with "1.IH" [OF refl] show ?case
    by (simp add: quantize_model.simps deepcopy_def)
next
  case (2 nc ex cur)
  show ?case by simp
next
  case (3 nc name layer rest ex cur)
  from "3.prems" have mem: "name \<in> set ex' \<longleftrightarrow> name \<in> set ex"
    and rest: "\<forall>k \<in> set (concat (map (\<lambda>p. fst p # (if fst p \<in> set ex then []
          else traversed ex (snd p))) rest)). k \<in> set ex' \<longleftrightarrow> k \<in> set ex"
    by auto
  show ?case
  proof (cases "name \<in> set ex")
    case True
    with "3.IH"(1) [OF True rest] mem show ?thesis by simp
  next
    case False
    from "3.prems" False
    have lay: "\<forall>k \<in> set (traversed ex layer). k \<in> set ex' \<longleftrightarrow> k \<in> set ex" by simp
    show ?thesis
    proof (cases layer)
      case (Linear l)
      show ?thesis
      proof (cases "quantize_linear nc l")
        case (Inl e)
        with False mem Linear show ?thesis by simp
      next
        case (Inr b)
        obtain wq ws wz bq bs bz where b: "b = (wq, ws, wz, bq, bs, bz)"
          by (cases b) auto
        from "3.IH"(2) [OF False Linear Inr b [symmetric] refl refl refl refl rest]
        show ?thesis using False mem Linear Inr b by simp
      qed
    next
      case (QuantizedLinearLayer x)
      from "3.IH"(3) [OF False QuantizedLinearLayer lay]
      have eq: "quantize_model nc layer ex' True = quantize_model nc layer ex True" .
      show ?thesis
      proof (cases "quantize_model nc layer ex True")
        case (Inl e)
        with False mem QuantizedLinearLayer eq show ?thesis by simp
      next
        case (Inr b)
        obtain x' y' where b: "b = (x', y')" by (cases b)
        from "3.IH"(4) [OF False QuantizedLinearLayer Inr b [symmetric] rest]
        show ?thesis using False mem QuantizedLinearLayer eq Inr b by simp
      qed
    next
      case (Module cls cs)
      from "3.IH"(5) [OF False Module lay]
      have eq: "quantize_model nc layer ex' True = quantize_model nc layer ex True" .
      show ?thesis
      proof (cases "quantize_model nc layer ex True")
        case (Inl e)
        with False mem Module eq show ?thesis by simp
      next
        case (Inr b)
        obtain x' y' where b: "b = (x', y')" by (cases b)
        from "3.IH"(6) [OF False Module Inr b [symmetric] rest]
        show ?thesis using False mem Module eq Inr b by simp
      qed
    qed
  qed
qed

text \<open>
  C9, as stated: an entry of the exclusion list that matches no child name is reported to
  the caller. The call returns the model and nothing else, and with the unmatched entry
  \<open>typo\<close> it returns what it returns with an empty exclusion list.
\<close>

theorem C9_counterexample:
  "quantize_model 0 flat_model [''typo''] True =
     Inr (Module ''Sequential''
            [(''0'', QuantizedLinearLayer example_quantized), (''1'', Module ''ReLU'' []),
             (''2'', QuantizedLinearLayer example_quantized)], flat_model)
   \<and> quantize_model 0 flat_model [] True = quantize_model 0 flat_model [''typo''] True"
  by (simp add: quantize_model_eval flat_model_def)

text \<open>
  C9, amended. An entry of the exclusion list that matches no child name during the
  traversal has no effect: the call completes, or raises, with the outcome it has without
  the entry, and nothing is reported.
\<close>

theorem C9_unmatched_entry_ignored:
  assumes "n \<notin> set (traversed ex model)"
  shows "quantize_model nc model ex c = quantize_model nc model (removeAll n ex) c"
proof -
  from assms have "\<forall>k \<in> set (traversed ex model). k \<in> set (removeAll n ex) \<longleftrightarrow> k \<in> set ex"
    by auto
  from exclusion_agree(1) [OF this] show ?thesis by simp
qed

theorem C9_witness:
  "''typo'' \<notin> set (traversed [''2'', ''typo''] flat_model)
   \<and> quantize_model 0 flat_model [''2'', ''typo''] False
       = quantize_model 0 flat_model [''2''] False"
proof -
  have "''typo'' \<notin> set (traversed [''2'', ''typo''] flat_model)" by code_simp
  from C9_unmatched_entry_ignored [OF this, of 0 False] this show ?thesis by simp
qed




end
